theory Spec2Isabelle
  imports Main
begin

section \<open>Go strings and the functions of package strings the plugin calls\<close>

text \<open>
  A Go string is a sequence of bytes; \<^typ>\<open>string\<close> (a list of 8-bit characters) is
  the same thing. The plugin calls \<open>strings.Split\<close>, \<open>strings.Contains\<close>,
  \<open>strings.TrimSpace\<close>, \<open>strings.Fields\<close>, \<open>strings.HasPrefix\<close> and
  \<open>strings.TrimPrefix\<close>. They belong to the Go standard library; the definitions below
  follow their documented behaviour on byte strings.
\<close>

definition newline :: string where
  "newline = [CHR 0x0A]"

text \<open>\<open>strings.HasPrefix(s, prefix)\<close>: \<open>len(s) >= len(prefix) && s[:len(prefix)] == prefix\<close>.\<close>

definition HasPrefix :: "string \<Rightarrow> string \<Rightarrow> bool" where
  "HasPrefix s p = (length p \<le> length s \<and> take (length p) s = p)"

text \<open>\<open>strings.HasSuffix(s, suffix)\<close>.\<close>

definition HasSuffix :: "string \<Rightarrow> string \<Rightarrow> bool" where
  "HasSuffix s p = (length p \<le> length s \<and> drop (length s - length p) s = p)"

text \<open>\<open>strings.TrimPrefix(s, prefix)\<close>: \<open>s\<close> without the leading \<open>prefix\<close>, or \<open>s\<close> itself.\<close>

definition TrimPrefix :: "string \<Rightarrow> string \<Rightarrow> string" where
  "TrimPrefix s p = (if HasPrefix s p then drop (length p) s else s)"

text \<open>
  \<open>strings.Index(s, substr)\<close>: the byte index of the first instance of \<open>substr\<close> in
  \<open>s\<close>; Go's \<open>-1\<close> is \<open>None\<close>.
\<close>

fun Index :: "string \<Rightarrow> string \<Rightarrow> nat option" where
  "Index [] sub = (if sub = [] then Some 0 else None)"
| "Index (c # cs) sub =
     (if HasPrefix (c # cs) sub then Some 0 else map_option Suc (Index cs sub))"

text \<open>\<open>strings.Contains(s, substr)\<close> is \<open>Index(s, substr) >= 0\<close>.\<close>

definition Contains :: "string \<Rightarrow> string \<Rightarrow> bool" where
  "Contains s sub = (Index s sub \<noteq> None)"

lemma Index_bound: "Index s sub = Some m \<Longrightarrow> m + length sub \<le> length s"
proof (induction s arbitrary: m)
  case Nil
  then show ?case by (simp split: if_splits)
next
  case (Cons c cs)
  show ?case
  proof (cases "HasPrefix (c # cs) sub")
    case True
    with Cons.prems show ?thesis by (simp add: HasPrefix_def)
  next
    case False
    with Cons.prems obtain k where "Index cs sub = Some k" and "m = Suc k"
      by auto
    with Cons.IH [of k] show ?thesis by simp
  qed
qed

text \<open>
  \<open>strings.Split(s, sep)\<close> for a non-empty separator, as \<open>genSplit\<close> computes it: cut at
  the first instance of \<open>sep\<close>, go on behind it, and end with the rest. The plugin splits
  on \<open>"\n"\<close> and on \<open>"infected:"\<close> only. An empty separator makes Go explode \<open>s\<close> into
  its UTF-8 sequences; the plugin never does that, and this definition then gives
  \<open>[s]\<close> instead.
\<close>

function Split :: "string \<Rightarrow> string \<Rightarrow> string list" where
  "Split s sep =
     (if sep = [] then [s]
      else case Index s sep of
             None \<Rightarrow> [s]
           | Some m \<Rightarrow> take m s # Split (drop (m + length sep) s) sep)"
  by pat_completeness auto
termination
proof (relation "measure (\<lambda>(s, sep). length s)")
  show "wf (measure (\<lambda>(s, sep). length s))" by simp
next
  fix s sep :: string and m
  assume "sep \<noteq> []" and "Index s sep = Some m"
  then have "m + length sep \<le> length s" and "0 < length sep"
    using Index_bound [of s sep m] by simp_all
  then have "length s - (m + length sep) < length s"
    by linarith
  then show "((drop (m + length sep) s, sep), (s, sep)) \<in> measure (\<lambda>(s, sep). length s)"
    by simp
qed
declare Split.simps [simp del]

subsection \<open>White space\<close>

text \<open>
  \<open>strings.TrimSpace\<close> and \<open>strings.Fields\<close> take white space as \<open>unicode.IsSpace\<close>
  defines it: the runes U+0009 to U+000D, U+0020, U+0085, U+00A0, U+1680, U+2000 to
  U+200A, U+2028, U+2029, U+202F, U+205F and U+3000. On the bytes of a string these are
  the UTF-8 sequences listed here. No sequence is a prefix of another, and in none of
  them does a byte after the first start a sequence: so a white-space rune stands at a
  byte position exactly when one of the sequences begins there, whatever bytes (valid
  UTF-8 or not) surround it.
\<close>

definition spaceSeqs :: "string list" where
  "spaceSeqs =
     [[CHR 0x09], [CHR 0x0A], [CHR 0x0B], [CHR 0x0C], [CHR 0x0D], [CHR 0x20],
      [CHR 0xC2, CHR 0x85], [CHR 0xC2, CHR 0xA0],
      [CHR 0xE1, CHR 0x9A, CHR 0x80],
      [CHR 0xE2, CHR 0x80, CHR 0x80], [CHR 0xE2, CHR 0x80, CHR 0x81],
      [CHR 0xE2, CHR 0x80, CHR 0x82], [CHR 0xE2, CHR 0x80, CHR 0x83],
      [CHR 0xE2, CHR 0x80, CHR 0x84], [CHR 0xE2, CHR 0x80, CHR 0x85],
      [CHR 0xE2, CHR 0x80, CHR 0x86], [CHR 0xE2, CHR 0x80, CHR 0x87],
      [CHR 0xE2, CHR 0x80, CHR 0x88], [CHR 0xE2, CHR 0x80, CHR 0x89],
      [CHR 0xE2, CHR 0x80, CHR 0x8A],
      [CHR 0xE2, CHR 0x80, CHR 0xA8], [CHR 0xE2, CHR 0x80, CHR 0xA9],
      [CHR 0xE2, CHR 0x80, CHR 0xAF],
      [CHR 0xE2, CHR 0x81, CHR 0x9F],
      [CHR 0xE3, CHR 0x80, CHR 0x80]]"

text \<open>
  The width in bytes of the white-space rune at the head of \<open>s\<close> (\<open>0\<close> when the rune
  there is no white space, or \<open>s\<close> is empty), and the same for the rune at its end.
\<close>

definition spaceWidth :: "string \<Rightarrow> nat" where
  "spaceWidth s = (case find (HasPrefix s) spaceSeqs of None \<Rightarrow> 0 | Some p \<Rightarrow> length p)"

definition spaceWidthLast :: "string \<Rightarrow> nat" where
  "spaceWidthLast s = (case find (HasSuffix s) spaceSeqs of None \<Rightarrow> 0 | Some p \<Rightarrow> length p)"

lemma spaceWidth_le: "spaceWidth s \<le> length s"
  by (auto simp: spaceWidth_def HasPrefix_def find_Some_iff split: option.splits)

lemma spaceWidthLast_le: "spaceWidthLast s \<le> length s"
  by (auto simp: spaceWidthLast_def HasSuffix_def find_Some_iff split: option.splits)

lemma spaceWidth_Nil [simp]: "spaceWidth [] = 0"
  using spaceWidth_le [of "[]"] by simp

lemma spaceWidthLast_Nil [simp]: "spaceWidthLast [] = 0"
  using spaceWidthLast_le [of "[]"] by simp

text \<open>\<open>strings.TrimLeftFunc(s, unicode.IsSpace)\<close>: drop white-space runes from the front.\<close>

function TrimLeft :: "string \<Rightarrow> string" where
  "TrimLeft s = (if spaceWidth s = 0 then s else TrimLeft (drop (spaceWidth s) s))"
  by pat_completeness auto
termination
proof (relation "measure length")
  show "wf (measure length)" by simp
next
  fix s :: string
  assume "spaceWidth s \<noteq> 0"
  moreover have "spaceWidth s \<le> length s" by (rule spaceWidth_le)
  ultimately show "(drop (spaceWidth s) s, s) \<in> measure length" by simp
qed
declare TrimLeft.simps [simp del]

text \<open>\<open>strings.TrimRightFunc(s, unicode.IsSpace)\<close>: drop white-space runes from the end.\<close>

function TrimRight :: "string \<Rightarrow> string" where
  "TrimRight s =
     (if spaceWidthLast s = 0 then s else TrimRight (take (length s - spaceWidthLast s) s))"
  by pat_completeness auto
termination
proof (relation "measure length")
  show "wf (measure length)" by simp
next
  fix s :: string
  assume "spaceWidthLast s \<noteq> 0"
  moreover have "spaceWidthLast s \<le> length s" by (rule spaceWidthLast_le)
  ultimately show "(take (length s - spaceWidthLast s) s, s) \<in> measure length" by simp
qed
declare TrimRight.simps [simp del]

text \<open>\<open>strings.TrimSpace(s)\<close>: all leading and trailing white space removed.\<close>

definition TrimSpace :: "string \<Rightarrow> string" where
  "TrimSpace s = TrimRight (TrimLeft s)"

text \<open>
  \<open>strings.Fields(s)\<close>: the maximal runs of bytes that hold no white-space rune, in
  order; empty when \<open>s\<close> is all white space. \<open>fieldLen s\<close> is the length of the run
  at the head of \<open>s\<close>.
\<close>

fun fieldLen :: "string \<Rightarrow> nat" where
  "fieldLen [] = 0"
| "fieldLen (c # cs) = (if spaceWidth (c # cs) = 0 then Suc (fieldLen cs) else 0)"

lemma fieldLen_le: "fieldLen s \<le> length s"
  by (induction s) auto

function Fields :: "string \<Rightarrow> string list" where
  "Fields s =
     (if s = [] then []
      else if spaceWidth s = 0 then take (fieldLen s) s # Fields (drop (fieldLen s) s)
      else Fields (drop (spaceWidth s) s))"
  by pat_completeness auto
termination
proof (relation "measure length")
  show "wf (measure length)" by simp
next
  fix s :: string
  assume "s \<noteq> []" and "spaceWidth s = 0"
  then have "0 < fieldLen s" by (cases s) auto
  with \<open>s \<noteq> []\<close> show "(drop (fieldLen s) s, s) \<in> measure length" by simp
next
  fix s :: string
  assume "s \<noteq> []" and "spaceWidth s \<noteq> 0"
  then show "(drop (spaceWidth s) s, s) \<in> measure length" by simp
qed
declare Fields.simps [simp del]

text \<open>A string of nothing but white space: white-space runes from the first byte to the last.\<close>

function onlySpace :: "string \<Rightarrow> bool" where
  "onlySpace s =
     (if s = [] then True
      else if spaceWidth s = 0 then False
      else onlySpace (drop (spaceWidth s) s))"
  by pat_completeness auto
termination
  by (relation "measure length") auto
declare onlySpace.simps [simp del]

section \<open>The plugin\<close>

text \<open>
  The definitions of this section follow the plugin's main file function by function.
  The repository holds an older copy of it as well, \<open>scan.go\<close>, with the same text for
  \<open>ParseBitdefenderOutput\<close> and \<open>extractVirusName\<close>; there \<open>AvScan\<close> hands the error of
  \<open>RunCommand\<close> to the parser instead of calling \<open>assert\<close>, and \<open>updateAV\<close> prints that
  error and goes on.
\<close>

subsection \<open>Results, failures and the world outside\<close>

text \<open>The struct \<open>ResultsData\<close>; Go's zero value \<open>ResultsData{}\<close> is \<open>zeroResults\<close>.\<close>

record ResultsData =
  Infected :: bool
  Result :: string
  Engine :: string
  Updated :: string
  MarkDown :: string

definition zeroResults :: ResultsData where
  "zeroResults = \<lparr>Infected = False, Result = [], Engine = [], Updated = [], MarkDown = []\<rparr>"

text \<open>
  The ways a call ends without returning: \<open>os.Exit(n)\<close> (\<open>log.Fatal\<close> is a log line and
  \<open>os.Exit(1)\<close>), which ends the process at once and runs no deferred call, and a
  run-time panic, which unwinds the stack and runs them.
\<close>

datatype failure = Exit nat | Panic

text \<open>
  What the file system answers for \<open>/opt/malice/UPDATED\<close>: \<open>os.Stat\<close> reports that the
  file does not exist; or \<open>ioutil.ReadFile\<close> returns its bytes; or \<open>ReadFile\<close> fails with
  an error of the given text, having read the given bytes.
\<close>

datatype sentinel = NotExist | Contents string | ReadError string string

text \<open>The variable \<open>BuildTime\<close>, set when the plugin is built, and the sentinel file.\<close>

record env =
  BuildTime :: string
  UPDATED :: sentinel

text \<open>
  \<open>assert(err)\<close>: a non-nil error whose text is not \<open>"exit status 1"\<close> is logged with
  \<open>Fatal\<close>; after anything else the caller goes on. A Go \<open>error\<close> is modelled by its text,
  \<open>nil\<close> by \<open>None\<close>.
\<close>

definition assert :: "string option \<Rightarrow> failure + unit" where
  "assert err =
     (case err of
        None \<Rightarrow> Inr ()
      | Some msg \<Rightarrow> if msg \<noteq> ''exit status 1'' then Inl (Exit 1) else Inr ())"

subsection \<open>The parser\<close>

text \<open>
  \<open>getUpdatedDate\<close>: \<open>BuildTime\<close> when \<open>os.Stat\<close> says that the sentinel file does not exist;
  otherwise the bytes \<open>ioutil.ReadFile\<close> returns, as a string, after \<open>assert\<close> on its error.
\<close>

definition getUpdatedDate :: "env \<Rightarrow> failure + string" where
  "getUpdatedDate e =
     (case UPDATED e of
        NotExist \<Rightarrow> Inr (BuildTime e)
      | Contents updated \<Rightarrow> Inr updated
      | ReadError msg updated \<Rightarrow>
          (case assert (Some msg) of Inl f \<Rightarrow> Inl f | Inr _ \<Rightarrow> Inr updated))"

text \<open>
  \<open>extractVirusName\<close> reads \<open>keyvalue[1]\<close>; on a slice of one element Go panics with
  an index out of range.
\<close>

definition extractVirusName :: "string \<Rightarrow> failure + string" where
  "extractVirusName line =
     (case Split line ''infected:'' of
        _ # v # _ \<Rightarrow> Inr (TrimSpace v)
      | _ \<Rightarrow> Inl Panic)"

text \<open>The inner loop \<open>for _, word := range words\<close>: it has no \<open>break\<close>.\<close>

fun engineWords :: "ResultsData \<Rightarrow> string list \<Rightarrow> ResultsData" where
  "engineWords b [] = b"
| "engineWords b (word # words) =
     engineWords (if HasPrefix word ''v'' then b\<lparr>Engine := TrimPrefix word ''v''\<rparr> else b) words"

text \<open>
  The body of \<open>for _, line := range lines\<close>. The line printed before \<open>os.Exit(2)\<close> is
  not part of the model.
\<close>

definition parseLine :: "ResultsData \<Rightarrow> string \<Rightarrow> failure + ResultsData" where
  "parseLine b line =
     (if length line \<noteq> 0 then
        if Contains line ''infected:'' then
          (case extractVirusName line of
             Inl f \<Rightarrow> Inl f
           | Inr result \<Rightarrow>
               if length result \<noteq> 0 then Inr (b\<lparr>Result := result, Infected := True\<rparr>)
               else Inl (Exit 2))
        else if Contains line ''Unices v'' then Inr (engineWords b (Fields line))
        else Inr b
      else Inr b)"

fun parseLines :: "ResultsData \<Rightarrow> string list \<Rightarrow> failure + ResultsData" where
  "parseLines b [] = Inr b"
| "parseLines b (line # lines) =
     (case parseLine b line of Inl f \<Rightarrow> Inl f | Inr b' \<Rightarrow> parseLines b' lines)"

text \<open>
  \<open>ParseBitdefenderOutput(bitdefenderout, err)\<close>, with the environment that
  \<open>getUpdatedDate\<close> reads as a parameter.
\<close>

definition ParseBitdefenderOutput :: "env \<Rightarrow> string \<Rightarrow> string option \<Rightarrow> failure + ResultsData" where
  "ParseBitdefenderOutput e bitdefenderout err =
     (case err of
        Some _ \<Rightarrow> Inr zeroResults
      | None \<Rightarrow>
          (case parseLines (zeroResults\<lparr>Infected := False\<rparr>) (Split bitdefenderout newline) of
             Inl f \<Rightarrow> Inl f
           | Inr bitdefender \<Rightarrow>
               (case getUpdatedDate e of
                  Inl f \<Rightarrow> Inl f
                | Inr updated \<Rightarrow> Inr (bitdefender\<lparr>Updated := updated\<rparr>))))"

text \<open>
  \<open>AvScan\<close>: \<open>utils.RunCommand(ctx, "bdscan", path)\<close> answers with the scanner's output
  and an error (a time-out of the context is one); \<open>run\<close> is that answer.
\<close>

definition AvScan :: "env \<Rightarrow> string \<times> string option \<Rightarrow> failure + ResultsData" where
  "AvScan e run =
     (case assert (snd run) of
        Inl f \<Rightarrow> Inl f
      | Inr _ \<Rightarrow> ParseBitdefenderOutput e (fst run) None)"

text \<open>The invariant of the loop over the lines: \<open>Result\<close> is set exactly when \<open>Infected\<close> is.\<close>

definition resultInv :: "ResultsData \<Rightarrow> bool" where
  "resultInv b = ((Infected b \<longrightarrow> Result b \<noteq> []) \<and> (\<not> Infected b \<longrightarrow> Result b = []))"

subsection \<open>The update\<close>

text \<open>
  The local date \<open>time.Now()\<close> reads from the clock, and \<open>Format("20060102")\<close>: the year
  in at least four digits, the month and the day in two, each padded with zeros.
\<close>

record date =
  year :: nat
  month :: nat
  day :: nat

fun digits :: "nat \<Rightarrow> string" where
  "digits n = (if n < 10 then [''0123456789'' ! n] else digits (n div 10) @ [''0123456789'' ! (n mod 10)])"
declare digits.simps [simp del]

definition pad :: "nat \<Rightarrow> nat \<Rightarrow> string" where
  "pad width n = replicate (width - length (digits n)) CHR ''0'' @ digits n"

definition Format20060102 :: "date \<Rightarrow> string" where
  "Format20060102 t = pad 4 (year t) @ pad 2 (month t) @ pad 2 (day t)"

text \<open>
  The form YYYYMMDD as the spec words it, written down apart from \<open>Format20060102\<close>:
  the four decimal digits of the year, the two of the month and the two of the day,
  most significant first, each as the ASCII character with the code 48 plus the digit.
\<close>

definition digitChar :: "nat \<Rightarrow> char" where
  "digitChar k = char_of (48 + k)"

definition decDigit :: "nat \<Rightarrow> nat \<Rightarrow> nat" where
  "decDigit n k = n div 10 ^ k mod 10"

definition YYYYMMDD :: "date \<Rightarrow> string" where
  "YYYYMMDD t =
     map digitChar
       [decDigit (year t) 3, decDigit (year t) 2, decDigit (year t) 1, decDigit (year t) 0,
        decDigit (month t) 1, decDigit (month t) 0,
        decDigit (day t) 1, decDigit (day t) 0]"

text \<open>
  What \<open>ioutil.WriteFile\<close> does to \<open>/opt/malice/UPDATED\<close>: it truncates the file and writes
  the data, or it fails with an error of the given text and leaves the file in the given
  state.
\<close>

datatype writeResult = Written | WriteFailed string sentinel

definition WriteFile :: "writeResult \<Rightarrow> string \<Rightarrow> string option \<times> sentinel" where
  "WriteFile wr data =
     (case wr of Written \<Rightarrow> (None, Contents data) | WriteFailed msg left \<Rightarrow> (Some msg, left))"

text \<open>
  \<open>updateAV\<close>: \<open>run\<close> is the answer of \<open>utils.RunCommand(ctx, "bdscan", "--update")\<close>. The
  value is the error returned to the caller together with the sentinel file as the call
  leaves it, or the failure that ends the process.
\<close>

definition updateAV :: "string \<times> string option \<Rightarrow> date \<Rightarrow> writeResult \<Rightarrow> failure + (string option \<times> sentinel)" where
  "updateAV run now wr =
     (case assert (snd run) of
        Inl f \<Rightarrow> Inl f
      | Inr _ \<Rightarrow> Inr (WriteFile wr (Format20060102 now)))"

subsection \<open>The web handler\<close>

text \<open>
  What the collaborators of \<open>webAvScan\<close> answer during one request: the error of
  \<open>r.FormFile("malware")\<close>; the error of \<open>ioutil.TempFile\<close> or the name of the file it
  created; the error of \<open>ioutil.ReadAll\<close>, of \<open>tmpfile.Write\<close> and of \<open>tmpfile.Close\<close>; the
  answer of \<open>utils.RunCommand(ctx, "bdscan", path)\<close>; the error of the JSON encoder.
\<close>

record webWorld =
  formFileErr :: "string option"
  tempFile :: "string + string"
  readAllErr :: "string option"
  writeErr :: "string option"
  closeErr :: "string option"
  runCommand :: "string \<times> string option"
  encodeErr :: "string option"

text \<open>
  The files under \<open>/malware\<close> once the handler has ended, when it has registered
  \<open>defer os.Remove(tmpfile.Name())\<close> for the file \<open>name\<close>: a return and a panic run the
  deferred call; \<open>os.Exit\<close> (and so \<open>log.Fatal\<close>) ends the process without running it.
\<close>

definition afterReturn :: "string \<Rightarrow> string set \<Rightarrow> string set" where
  "afterReturn name files = files - {name}"

definition afterFailure :: "failure \<Rightarrow> string \<Rightarrow> string set \<Rightarrow> string set" where
  "afterFailure f name files = (case f of Exit _ \<Rightarrow> files | Panic \<Rightarrow> files - {name})"

text \<open>
  \<open>webAvScan\<close>, on the set of files under \<open>/malware\<close>: the value is how the handler ends
  and the files that are there then. After a failed \<open>FormFile\<close> the handler writes the
  status 400 but does not return: it goes on with a nil \<open>file\<close> and a nil \<open>header\<close>, and
  panics before any file is created. \<open>ioutil.TempFile\<close> creates the file \<open>name\<close>.
\<close>

definition webAvScan :: "env \<Rightarrow> webWorld \<Rightarrow> string set \<Rightarrow> (failure + ResultsData) \<times> string set" where
  "webAvScan e w files =
     (case formFileErr w of
        Some _ \<Rightarrow> (Inl Panic, files)
      | None \<Rightarrow>
     (case tempFile w of
        Inl _ \<Rightarrow> (Inl (Exit 1), files)
      | Inr name \<Rightarrow>
     (case assert (readAllErr w) of
        Inl f \<Rightarrow> (Inl f, afterFailure f name (insert name files))
      | Inr _ \<Rightarrow>
     (case writeErr w of
        Some _ \<Rightarrow> (Inl (Exit 1), afterFailure (Exit 1) name (insert name files))
      | None \<Rightarrow>
     (case closeErr w of
        Some _ \<Rightarrow> (Inl (Exit 1), afterFailure (Exit 1) name (insert name files))
      | None \<Rightarrow>
     (case AvScan e (runCommand w) of
        Inl f \<Rightarrow> (Inl f, afterFailure f name (insert name files))
      | Inr bitdefender \<Rightarrow>
     (case encodeErr w of
        Some _ \<Rightarrow> (Inl (Exit 1), afterFailure (Exit 1) name (insert name files))
      | None \<Rightarrow> (Inr bitdefender, afterReturn name (insert name files)))))))))"

section \<open>Facts about the string functions\<close>

lemma HasPrefix_iff: "HasPrefix s p \<longleftrightarrow> (\<exists>b. s = p @ b)"
proof
  assume "HasPrefix s p"
  then have "s = p @ drop (length p) s"
    by (metis HasPrefix_def append_take_drop_id)
  then show "\<exists>b. s = p @ b" ..
next
  assume "\<exists>b. s = p @ b"
  then show "HasPrefix s p" by (auto simp: HasPrefix_def)
qed

lemma Contains_Nil [simp]: "Contains [] sub \<longleftrightarrow> sub = []"
  by (simp add: Contains_def)

lemma Contains_Cons: "Contains (c # cs) sub \<longleftrightarrow> HasPrefix (c # cs) sub \<or> Contains cs sub"
  by (simp add: Contains_def)

lemma Contains_iff: "Contains s sub \<longleftrightarrow> (\<exists>a b. s = a @ sub @ b)"
proof (induction s)
  case Nil
  show ?case by auto
next
  case (Cons c cs)
  show ?case
  proof
    assume "Contains (c # cs) sub"
    then consider "HasPrefix (c # cs) sub" | "Contains cs sub"
      by (auto simp: Contains_Cons)
    then show "\<exists>a b. c # cs = a @ sub @ b"
    proof cases
      case 1
      then obtain b where "c # cs = sub @ b" by (auto simp: HasPrefix_iff)
      then have "c # cs = [] @ sub @ b" by simp
      then show ?thesis by blast
    next
      case 2
      with Cons.IH obtain a b where "cs = a @ sub @ b" by blast
      then have "c # cs = (c # a) @ sub @ b" by simp
      then show ?thesis by blast
    qed
  next
    assume "\<exists>a b. c # cs = a @ sub @ b"
    then obtain a b where ab: "c # cs = a @ sub @ b" by blast
    show "Contains (c # cs) sub"
    proof (cases a)
      case Nil
      with ab have "HasPrefix (c # cs) sub" by (simp add: HasPrefix_iff)
      then show ?thesis by (simp add: Contains_Cons)
    next
      case (Cons x a')
      with ab have "cs = a' @ sub @ b" by simp
      with Cons.IH show ?thesis by (auto simp: Contains_Cons)
    qed
  qed
qed

lemma Contains_marker_line: "Contains (p @ sub @ r) sub"
  unfolding Contains_iff by blast

lemma Index_None_iff: "Index s sub = None \<longleftrightarrow> \<not> Contains s sub"
  by (simp add: Contains_def)

lemma Split_Some:
  "sep \<noteq> [] \<Longrightarrow> Index s sep = Some i \<Longrightarrow>
   Split s sep = take i s # Split (drop (i + length sep) s) sep"
  by (subst Split.simps) simp

lemma Split_None: "Index s sep = None \<Longrightarrow> Split s sep = [s]"
  by (subst Split.simps) simp

lemma Split_not_Nil: "Split s sep \<noteq> []"
  by (subst Split.simps) (simp split: option.splits)

lemma Split_sublist: "l \<in> set (Split s sep) \<Longrightarrow> \<exists>a b. s = a @ l @ b"
proof (induction s sep rule: Split.induct)
  case (1 s sep)
  show ?case
  proof (cases "sep = []")
    case True
    with "1.prems" have "l = s" by (subst (asm) Split.simps) simp
    then have "s = [] @ l @ []" by simp
    then show ?thesis by blast
  next
    case False
    show ?thesis
    proof (cases "Index s sep")
      case None
      with "1.prems" have "l = s" by (simp add: Split_None)
      then have "s = [] @ l @ []" by simp
      then show ?thesis by blast
    next
      case (Some m)
      with False "1.prems" consider "l = take m s" | "l \<in> set (Split (drop (m + length sep) s) sep)"
        by (auto simp: Split_Some)
      then show ?thesis
      proof cases
        case 1
        then have "s = [] @ l @ drop m s" by simp
        then show ?thesis by blast
      next
        case 2
        with "1.IH" [OF False Some] obtain a b where "drop (m + length sep) s = a @ l @ b"
          by blast
        then have "s = (take (m + length sep) s @ a) @ l @ b"
          by (metis append_take_drop_id append.assoc)
        then show ?thesis by blast
      qed
    qed
  qed
qed

lemma Contains_line: 
  assumes "l \<in> set (Split s sep)" and "Contains l sub" shows "Contains s sub"
proof -
  from assms(1) obtain a b where s: "s = a @ l @ b" using Split_sublist by blast
  from assms(2) obtain c d where "l = c @ sub @ d" by (auto simp: Contains_iff)
  with s have "s = (a @ c) @ sub @ (d @ b)" by simp
  then show ?thesis unfolding Contains_iff by blast
qed

subsection \<open>The marker \<open>infected:\<close>\<close>

lemma no_overlap:
  assumes c: "c \<notin> set m'" and p: "p \<noteq> []" and np: "\<not> HasPrefix p (m' @ [c])"
  shows "\<not> HasPrefix (p @ (m' @ [c]) @ r) (m' @ [c])"
proof
  assume h: "HasPrefix (p @ (m' @ [c]) @ r) (m' @ [c])"
  let ?n = "length m'"
  from h have t: "take (Suc ?n) (p @ (m' @ [c]) @ r) = m' @ [c]"
    by (simp add: HasPrefix_def)
  show False
  proof (cases "?n < length p")
    case True
    with t have "take (Suc ?n) p = m' @ [c]" by simp
    with True have "HasPrefix p (m' @ [c])" by (simp add: HasPrefix_def)
    with np show False ..
  next
    case False
    have "(p @ (m' @ [c]) @ r) ! ?n = take (Suc ?n) (p @ (m' @ [c]) @ r) ! ?n"
      by (simp only: nth_take lessI)
    also from t have "\<dots> = (m' @ [c]) ! ?n" by (simp only:)
    finally have "(p @ (m' @ [c]) @ r) ! ?n = c" by simp
    with False have "((m' @ [c]) @ r) ! (?n - length p) = c"
      by (simp add: nth_append)
    moreover from p False have "?n - length p < ?n" by (cases p) auto
    ultimately have "m' ! (?n - length p) = c" by (simp add: nth_append)
    with \<open>?n - length p < ?n\<close> have "c \<in> set m'" by (metis nth_mem)
    with c show False ..
  qed
qed

lemma Index_append_unbordered:
  assumes c: "c \<notin> set m'" and np: "\<not> Contains p (m' @ [c])"
  shows "Index (p @ (m' @ [c]) @ r) (m' @ [c]) = Some (length p)"
  using np
proof (induction p)
  case Nil
  have "HasPrefix ((m' @ [c]) @ r) (m' @ [c])" by (simp add: HasPrefix_iff)
  then show ?case by (cases m') simp_all
next
  case (Cons x xs)
  from Cons.prems have a: "\<not> HasPrefix (x # xs) (m' @ [c])" and b: "\<not> Contains xs (m' @ [c])"
    by (simp_all add: Contains_Cons)
  from no_overlap [OF c _ a, of r] have "\<not> HasPrefix ((x # xs) @ (m' @ [c]) @ r) (m' @ [c])"
    by simp
  with Cons.IH [OF b] show ?case by simp
qed

lemma Index_infected:
  "\<not> Contains p ''infected:'' \<Longrightarrow> Index (p @ ''infected:'' @ r) ''infected:'' = Some (length p)"
  using Index_append_unbordered [of "CHR '':''" "''infected''" p r] by simp

lemma Split_infected:
  assumes "\<not> Contains p ''infected:''"
  shows "Split (p @ ''infected:'' @ r) ''infected:'' = p # Split r ''infected:''"
  using Split_Some [OF _ Index_infected [OF assms, of r]] by simp

lemma extractVirusName_first:
  assumes "\<not> Contains p ''infected:''" and "\<not> Contains r ''infected:''"
  shows "extractVirusName (p @ ''infected:'' @ r) = Inr (TrimSpace r)"
proof -
  from assms(2) have "Split r ''infected:'' = [r]"
    by (simp add: Split_None Index_None_iff)
  with Split_infected [OF assms(1), of r]
  have "Split (p @ ''infected:'' @ r) ''infected:'' = [p, r]"
    by simp
  then show ?thesis by (simp add: extractVirusName_def)
qed

lemma extractVirusName_between:
  assumes "\<not> Contains p ''infected:''" and "\<not> Contains q ''infected:''"
  shows "extractVirusName (p @ ''infected:'' @ q @ ''infected:'' @ r) = Inr (TrimSpace q)"
proof -
  have "Split (p @ ''infected:'' @ q @ ''infected:'' @ r) ''infected:'' =
        p # q # Split r ''infected:''"
    using Split_infected [OF assms(1), of "q @ ''infected:'' @ r"] Split_infected [OF assms(2), of r]
    by simp
  then show ?thesis by (simp add: extractVirusName_def)
qed

lemma extractVirusName_Contains:
  assumes "Contains line ''infected:''"
  shows "\<exists>v. extractVirusName line = Inr v"
proof -
  from assms obtain i where i: "Index line ''infected:'' = Some i"
    by (auto simp: Contains_def)
  obtain y ys where "Split (drop (i + length ''infected:'') line) ''infected:'' = y # ys"
    using Split_not_Nil by (meson list.exhaust)
  with Split_Some [OF _ i] show ?thesis
    by (simp add: extractVirusName_def)
qed

subsection \<open>Strings of white space\<close>

lemma spaceWidth_take:
  assumes "spaceWidth s \<noteq> 0"
  shows "take (spaceWidth s) s \<in> set spaceSeqs"
proof -
  from assms obtain p where p: "find (HasPrefix s) spaceSeqs = Some p" and w: "spaceWidth s = length p"
    by (auto simp: spaceWidth_def split: option.splits)
  from p have "p \<in> set spaceSeqs" and "HasPrefix s p"
    by (auto simp: find_Some_iff)
  with w show ?thesis by (simp add: HasPrefix_def)
qed

lemma TrimLeft_onlySpace: "onlySpace s \<Longrightarrow> TrimLeft s = []"
proof (induction s rule: onlySpace.induct)
  case (1 s)
  show ?case
  proof (cases "s = []")
    case True
    then show ?thesis by (subst TrimLeft.simps) simp
  next
    case False
    with "1.prems" have w: "spaceWidth s \<noteq> 0" and o: "onlySpace (drop (spaceWidth s) s)"
      by (subst (asm) onlySpace.simps, simp split: if_splits)+
    from "1.IH" [OF False w o] w show ?thesis
      by (subst TrimLeft.simps) simp
  qed
qed

lemma TrimSpace_onlySpace: "onlySpace s \<Longrightarrow> TrimSpace s = []"
  by (simp add: TrimSpace_def TrimLeft_onlySpace TrimRight.simps [of "[]"])

lemma onlySpace_bytes: "onlySpace s \<Longrightarrow> set s \<subseteq> \<Union> (set ` set spaceSeqs)"
proof (induction s rule: onlySpace.induct)
  case (1 s)
  show ?case
  proof (cases "s = []")
    case True
    then show ?thesis by simp
  next
    case False
    with "1.prems" have w: "spaceWidth s \<noteq> 0" and o: "onlySpace (drop (spaceWidth s) s)"
      by (subst (asm) onlySpace.simps, simp split: if_splits)+
    from "1.IH" [OF False w o] have "set (drop (spaceWidth s) s) \<subseteq> \<Union> (set ` set spaceSeqs)" .
    moreover from spaceWidth_take [OF w] have "set (take (spaceWidth s) s) \<subseteq> \<Union> (set ` set spaceSeqs)"
      by blast
    moreover have "set s = set (take (spaceWidth s) s) \<union> set (drop (spaceWidth s) s)"
      by (metis append_take_drop_id set_append)
    ultimately show ?thesis by blast
  qed
qed

lemma onlySpace_no_marker:
  assumes "onlySpace s" shows "\<not> Contains s ''infected:''"
proof
  assume "Contains s ''infected:''"
  then obtain a b where "s = a @ ''infected:'' @ b" by (auto simp: Contains_iff)
  then have "CHR ''i'' \<in> set s" by simp
  with onlySpace_bytes [OF assms] have "CHR ''i'' \<in> \<Union> (set ` set spaceSeqs)" by blast
  then show False by (simp add: spaceSeqs_def)
qed

subsection \<open>Fields and the banner line\<close>

lemma HasPrefix_append_sep:
  assumes "c \<notin> set (tl p)" and "a \<noteq> []"
  shows "HasPrefix (a @ c # b) p \<longleftrightarrow> HasPrefix a p"
proof
  assume "HasPrefix a p"
  then show "HasPrefix (a @ c # b) p" by (auto simp: HasPrefix_iff)
next
  assume h: "HasPrefix (a @ c # b) p"
  show "HasPrefix a p"
  proof (cases "length p \<le> length a")
    case True
    with h show ?thesis by (simp add: HasPrefix_def)
  next
    case False
    from h have "take (length p) (a @ c # b) = p" by (simp add: HasPrefix_def)
    then have "p ! length a = take (length p) (a @ c # b) ! length a" by simp
    also from False have "\<dots> = (a @ c # b) ! length a"
      by (intro nth_take) simp
    also have "\<dots> = c" by simp
    finally have "p ! length a = c" .
    moreover from assms(2) False have "0 < length a" "length a < length p" by auto
    ultimately have "tl p ! (length a - 1) = c" and "length a - 1 < length (tl p)"
      by (cases p; cases a; simp)+
    then have "c \<in> set (tl p)"
      by (metis nth_mem)
    with assms(1) show ?thesis ..
  qed
qed

lemma space_not_inner: "\<forall>p\<in>set spaceSeqs. CHR 0x20 \<notin> set (tl p)"
  by (simp add: spaceSeqs_def)

lemma find_cong_set: "(\<And>x. x \<in> set xs \<Longrightarrow> P x = Q x) \<Longrightarrow> find P xs = find Q xs"
  by (induction xs) auto

lemma spaceWidth_append_space:
  assumes "a \<noteq> []"
  shows "spaceWidth (a @ CHR 0x20 # b) = spaceWidth a"
proof -
  have "find (HasPrefix (a @ CHR 0x20 # b)) spaceSeqs = find (HasPrefix a) spaceSeqs"
    using space_not_inner assms by (intro find_cong_set HasPrefix_append_sep) auto
  then show ?thesis by (simp add: spaceWidth_def)
qed

lemma spaceWidth_space [simp]: "spaceWidth (CHR 0x20 # b) = 1"
  by (simp add: spaceWidth_def spaceSeqs_def HasPrefix_def)

lemma spaceWidth_v [simp]: "spaceWidth (CHR ''v'' # b) = 0"
  by (simp add: spaceWidth_def spaceSeqs_def HasPrefix_def)

lemma fieldLen_append_space: "fieldLen (a @ CHR 0x20 # b) = fieldLen a"
proof (induction a)
  case Nil
  show ?case by simp
next
  case (Cons x xs)
  have "spaceWidth ((x # xs) @ CHR 0x20 # b) = spaceWidth (x # xs)"
    by (rule spaceWidth_append_space) simp
  with Cons.IH show ?case by simp
qed

lemma Fields_append_space: "Fields (a @ CHR 0x20 # b) = Fields a @ Fields b"
proof (induction a rule: Fields.induct)
  case (1 s)
  show ?case
  proof (cases "s = []")
    case True
    then show ?thesis
      by (simp add: Fields.simps [of "CHR 0x20 # b"] Fields.simps [of "[]"])
  next
    case False
    then have w: "spaceWidth (s @ CHR 0x20 # b) = spaceWidth s"
      by (rule spaceWidth_append_space)
    show ?thesis
    proof (cases "spaceWidth s = 0")
      case True
      have k: "fieldLen s \<le> length s" by (rule fieldLen_le)
      from "1.IH"(1) [OF False True]
      have "Fields (drop (fieldLen s) s @ CHR 0x20 # b) = Fields (drop (fieldLen s) s) @ Fields b" .
      with False True w k show ?thesis
        by (simp add: Fields.simps [of "s @ CHR 0x20 # b"] Fields.simps [of s] fieldLen_append_space)
    next
      case nz: False
      have k: "spaceWidth s \<le> length s" by (rule spaceWidth_le)
      from "1.IH"(2) [OF False nz]
      have "Fields (drop (spaceWidth s) s @ CHR 0x20 # b) = Fields (drop (spaceWidth s) s) @ Fields b" .
      with False nz w k show ?thesis
        by (simp add: Fields.simps [of "s @ CHR 0x20 # b"] Fields.simps [of s])
    qed
  qed
qed

lemma Fields_v: "\<exists>w ws. Fields (CHR ''v'' # b) = w # ws \<and> HasPrefix w ''v''"
  by (simp add: Fields.simps [of "CHR ''v'' # b"] HasPrefix_def)

lemma Fields_banner:
  assumes "Contains line ''Unices v''"
  shows "\<exists>w\<in>set (Fields line). HasPrefix w ''v''"
proof -
  from assms obtain a b where "line = a @ ''Unices v'' @ b" by (auto simp: Contains_iff)
  then have "line = (a @ ''Unices'') @ CHR 0x20 # (CHR ''v'' # b)" by simp
  then have "Fields line = Fields (a @ ''Unices'') @ Fields (CHR ''v'' # b)"
    by (simp only: Fields_append_space)
  with Fields_v [of b] show ?thesis by auto
qed

lemma Fields_banner_last:
  assumes "Contains line ''Unices v''"
  shows "\<exists>ws w ws'. Fields line = ws @ w # ws' \<and> HasPrefix w ''v''
           \<and> (\<forall>x\<in>set ws'. \<not> HasPrefix x ''v'')"
  using Fields_banner [OF assms] split_list_last_prop [of "Fields line" "\<lambda>w. HasPrefix w ''v''"]
  by blast

lemma Fields_example:
  "Fields (p @ ''Unices v7.90123 Linux-amd64'') =
   Fields (p @ ''Unices'') @ [''v7.90123'', ''Linux-amd64'']"
proof -
  have "p @ ''Unices v7.90123 Linux-amd64'' = (p @ ''Unices'') @ CHR 0x20 # ''v7.90123 Linux-amd64''"
    by simp
  moreover have "Fields ''v7.90123 Linux-amd64'' = [''v7.90123'', ''Linux-amd64'']"
    by code_simp
  ultimately show ?thesis by (simp only: Fields_append_space)
qed

subsection \<open>The date format\<close>

lemma digits_length_1: "n < 10 \<Longrightarrow> length (digits n) = 1"
  by (subst digits.simps) simp

lemma digits_length_2: "n < 100 \<Longrightarrow> length (digits n) \<le> 2"
  by (subst digits.simps) (simp add: digits_length_1)

lemma digits_length_3: "n < 1000 \<Longrightarrow> length (digits n) \<le> 3"
  using digits_length_2 [of "n div 10"] by (subst digits.simps) simp

lemma digits_length_4: "n < 10000 \<Longrightarrow> length (digits n) \<le> 4"
  using digits_length_3 [of "n div 10"] by (subst digits.simps) simp

lemma pad_length: "length (digits n) \<le> width \<Longrightarrow> length (pad width n) = width"
  by (simp add: pad_def)

lemma Format20060102_length:
  assumes "year t < 10000" and "month t \<le> 12" and "day t \<le> 31"
  shows "length (Format20060102 t) = 8"
proof -
  from assms(1) have "length (pad 4 (year t)) = 4"
    by (intro pad_length digits_length_4)
  moreover from assms(2) have "length (pad 2 (month t)) = 2"
    by (intro pad_length digits_length_2) simp
  moreover from assms(3) have "length (pad 2 (day t)) = 2"
    by (intro pad_length digits_length_2) simp
  ultimately show ?thesis by (simp add: Format20060102_def)
qed

lemma digit_codes:
  "digitChar 0 = CHR ''0''" "digitChar 1 = CHR ''1''" "digitChar 2 = CHR ''2''"
  "digitChar 3 = CHR ''3''" "digitChar 4 = CHR ''4''" "digitChar 5 = CHR ''5''"
  "digitChar 6 = CHR ''6''" "digitChar 7 = CHR ''7''" "digitChar 8 = CHR ''8''"
  "digitChar 9 = CHR ''9''"
  by code_simp+

lemma digit_table:
  assumes "k < 10" shows "''0123456789'' ! k = digitChar k"
proof -
  from assms have "k = 0 \<or> k = 1 \<or> k = 2 \<or> k = 3 \<or> k = 4 \<or> k = 5 \<or> k = 6 \<or> k = 7 \<or> k = 8 \<or> k = 9"
    by arith
  then show ?thesis
    using digit_codes by (elim disjE) simp_all
qed

lemma digitChar_0: "CHR ''0'' = digitChar 0"
  by (simp add: digit_codes)

lemma replicate_digits:
  "replicate 3 c = [c, c, c]" "replicate 2 c = [c, c]"
  by (simp_all add: numeral_3_eq_3 numeral_2_eq_2)

lemma digits_1: "n < 10 \<Longrightarrow> digits n = [digitChar n]"
  by (subst digits.simps) (simp add: digit_table)

lemma digits_2:
  assumes "10 \<le> n" and "n < 100"
  shows "digits n = [digitChar (n div 10), digitChar (n mod 10)]"
proof -
  from assms have "n div 10 < 10" by arith
  with assms show ?thesis
    by (subst digits.simps) (simp add: digits_1 digit_table)
qed

lemma digits_3:
  assumes "100 \<le> n" and "n < 1000"
  shows "digits n = [digitChar (n div 100), digitChar (n div 10 mod 10), digitChar (n mod 10)]"
proof -
  from assms have "10 \<le> n div 10" and "n div 10 < 100" by arith+
  moreover have "n div 10 div 10 = n div 100" by arith
  ultimately show ?thesis using assms digits_2 [of "n div 10"]
    by (subst digits.simps) (simp add: digit_table)
qed

lemma digits_4:
  assumes "1000 \<le> n" and "n < 10000"
  shows "digits n = [digitChar (n div 1000), digitChar (n div 100 mod 10),
                     digitChar (n div 10 mod 10), digitChar (n mod 10)]"
proof -
  from assms have "100 \<le> n div 10" and "n div 10 < 1000" by arith+
  moreover have "n div 10 div 100 = n div 1000" and "n div 10 div 10 = n div 100" by arith+
  ultimately show ?thesis using assms digits_3 [of "n div 10"]
    by (subst digits.simps) (simp add: digit_table)
qed

lemma pad_2:
  assumes "n < 100"
  shows "pad 2 n = map digitChar [decDigit n 1, decDigit n 0]"
proof (cases "n < 10")
  case True
  then show ?thesis
    by (simp add: pad_def digits_1 decDigit_def digitChar_0 replicate_digits)
next
  case False
  with assms have "n div 10 < 10" by arith
  with False assms show ?thesis
    by (simp add: pad_def digits_2 decDigit_def)
qed

lemma pad_4:
  assumes "n < 10000"
  shows "pad 4 n = map digitChar [decDigit n 3, decDigit n 2, decDigit n 1, decDigit n 0]"
proof -
  consider "n < 10" | "10 \<le> n" "n < 100" | "100 \<le> n" "n < 1000" | "1000 \<le> n"
    by arith
  then show ?thesis
  proof cases
    case 1
    then show ?thesis
      by (simp add: pad_def digits_1 decDigit_def digitChar_0 replicate_digits)
  next
    case 2
    then have "n div 10 < 10" by arith
    with 2 show ?thesis
      by (simp add: pad_def digits_2 decDigit_def digitChar_0 replicate_digits)
  next
    case 3
    then have "n div 100 < 10" by arith
    with 3 show ?thesis
      by (simp add: pad_def digits_3 decDigit_def digitChar_0 replicate_digits)
  next
    case 4
    with assms have "n div 1000 < 10" by arith
    with 4 assms show ?thesis
      by (simp add: pad_def digits_4 decDigit_def)
  qed
qed

lemma Format20060102_YYYYMMDD:
  assumes "year t < 10000" and "month t < 100" and "day t < 100"
  shows "Format20060102 t = YYYYMMDD t"
  using assms by (simp add: Format20060102_def YYYYMMDD_def pad_4 pad_2)

section \<open>The loops of the parser\<close>

lemma engineWords_keeps [simp]:
  "Infected (engineWords b ws) = Infected b"
  "Result (engineWords b ws) = Result b"
  "Updated (engineWords b ws) = Updated b"
  "MarkDown (engineWords b ws) = MarkDown b"
  by (induction ws arbitrary: b) auto

lemma engineWords_append:
  "engineWords b (ws @ ws') = engineWords (engineWords b ws) ws'"
  by (induction ws arbitrary: b) auto

lemma engineWords_none:
  "\<forall>w\<in>set ws. \<not> HasPrefix w ''v'' \<Longrightarrow> engineWords b ws = b"
  by (induction ws arbitrary: b) auto

lemma engineWords_last:
  assumes "HasPrefix w ''v''" and "\<forall>x\<in>set ws'. \<not> HasPrefix x ''v''"
  shows "Engine (engineWords b (ws @ w # ws')) = TrimPrefix w ''v''"
  using assms by (simp add: engineWords_append engineWords_none)

lemma parseLine_inv:
  "parseLine b line = Inr b' \<Longrightarrow> resultInv b \<Longrightarrow> resultInv b'"
  by (auto simp: parseLine_def resultInv_def split: if_splits sum.splits)

lemma parseLines_inv:
  "parseLines b ls = Inr b' \<Longrightarrow> resultInv b \<Longrightarrow> resultInv b'"
proof (induction ls arbitrary: b)
  case Nil
  then show ?case by simp
next
  case (Cons l ls)
  from Cons.prems(1) obtain b1 where 1: "parseLine b l = Inr b1" and 2: "parseLines b1 ls = Inr b'"
    by (auto split: sum.splits)
  from parseLine_inv [OF 1 Cons.prems(2)] Cons.IH [OF 2] show ?case by blast
qed

lemma parseLine_failure: "parseLine b line = Inl f \<Longrightarrow> f = Exit 2"
  using extractVirusName_Contains [of line]
  by (auto simp: parseLine_def split: if_splits sum.splits)

lemma parseLines_failure: "parseLines b ls = Inl f \<Longrightarrow> f = Exit 2"
  by (induction ls arbitrary: b) (auto split: sum.splits dest: parseLine_failure)

lemma parseLines_append:
  "parseLines b (xs @ ys) =
     (case parseLines b xs of Inl f \<Rightarrow> Inl f | Inr b' \<Rightarrow> parseLines b' ys)"
  by (induction xs arbitrary: b) (auto split: sum.splits)

lemma parseLine_no_marker:
  "\<not> Contains line ''infected:'' \<Longrightarrow>
   \<exists>b'. parseLine b line = Inr b' \<and> Infected b' = Infected b \<and> Result b' = Result b"
  by (simp add: parseLine_def)

lemma parseLines_no_marker:
  "\<forall>l\<in>set ls. \<not> Contains l ''infected:'' \<Longrightarrow>
   \<exists>b'. parseLines b ls = Inr b' \<and> Infected b' = Infected b \<and> Result b' = Result b"
proof (induction ls arbitrary: b)
  case Nil
  then show ?case by simp
next
  case (Cons l ls)
  then obtain b1 where 1: "parseLine b l = Inr b1" "Infected b1 = Infected b" "Result b1 = Result b"
    using parseLine_no_marker [of l b] by auto
  from Cons.prems Cons.IH [of b1] obtain b' where
    "parseLines b1 ls = Inr b'" "Infected b' = Infected b1" "Result b' = Result b1"
    by auto
  with 1 show ?case by simp
qed

lemma parseLines_returns:
  "\<forall>l\<in>set ls. Contains l ''infected:'' \<longrightarrow> extractVirusName l \<noteq> Inr [] \<Longrightarrow>
   \<exists>b'. parseLines b ls = Inr b'"
proof (induction ls arbitrary: b)
  case Nil
  then show ?case by simp
next
  case (Cons l ls)
  have "\<exists>b1. parseLine b l = Inr b1"
  proof (cases "Contains l ''infected:''")
    case True
    with Cons.prems extractVirusName_Contains [of l] obtain v
      where "extractVirusName l = Inr v" and "v \<noteq> []" by auto
    with True show ?thesis by (simp add: parseLine_def)
  next
    case False
    then show ?thesis using parseLine_no_marker [of l b] by blast
  qed
  then obtain b1 where "parseLine b l = Inr b1" ..
  moreover from Cons.prems Cons.IH [of b1] obtain b' where "parseLines b1 ls = Inr b'"
    by auto
  ultimately show ?case by simp
qed

lemma parseLine_infected:
  assumes "\<not> Contains path ''infected:''" and "\<not> Contains name ''infected:''"
  shows "parseLine b (path @ ''infected:'' @ name) =
     (if TrimSpace name \<noteq> [] then Inr (b\<lparr>Result := TrimSpace name, Infected := True\<rparr>)
      else Inl (Exit 2))"
proof -
  have "Contains (path @ ''infected:'' @ name) ''infected:''"
    by (rule Contains_marker_line)
  with extractVirusName_first [OF assms] show ?thesis
    by (simp add: parseLine_def)
qed

lemma parseLine_banner:
  assumes "Contains line ''Unices v''" and "\<not> Contains line ''infected:''"
  shows "parseLine b line = Inr (engineWords b (Fields line))"
proof -
  from assms(1) have "line \<noteq> []" by auto
  with assms show ?thesis by (simp add: parseLine_def)
qed

lemma parseLine_engine_kept:
  assumes "Contains line ''Unices v'' \<longrightarrow> Contains line ''infected:''"
    and "parseLine b line = Inr b'"
  shows "Engine b' = Engine b"
  using assms by (auto simp: parseLine_def split: if_splits sum.splits)

lemma parseLines_engine_kept:
  "\<forall>l\<in>set ls. Contains l ''Unices v'' \<longrightarrow> Contains l ''infected:'' \<Longrightarrow>
   parseLines b ls = Inr b' \<Longrightarrow> Engine b' = Engine b"
proof (induction ls arbitrary: b)
  case Nil
  then show ?case by simp
next
  case (Cons l ls)
  from Cons.prems(2) obtain b1 where 1: "parseLine b l = Inr b1" and 2: "parseLines b1 ls = Inr b'"
    by (auto split: sum.splits)
  from Cons.prems(1) have "Engine b1 = Engine b"
    using parseLine_engine_kept [OF _ 1] by simp
  moreover from Cons.prems(1) Cons.IH [OF _ 2] have "Engine b' = Engine b1" by simp
  ultimately show ?case by simp
qed


section \<open>The claims\<close>

subsection \<open>C1: the name of an infected line\<close>

text \<open>
  C1, as the spec states it, fails on an output with two infected lines: the loop
  overwrites \<open>Result\<close> at each of them, so the name of the first line is lost.
\<close>

theorem C1_counterexample:
  "''a infected: X'' \<in> set (Split (''a infected: X'' @ newline @ ''b infected: Y'') newline)
   \<and> TrimSpace '' X'' = ''X''
   \<and> ParseBitdefenderOutput \<lparr>BuildTime = ''20230615'', UPDATED = NotExist\<rparr>
        (''a infected: X'' @ newline @ ''b infected: Y'') None =
      Inr \<lparr>Infected = True, Result = ''Y'', Engine = [], Updated = ''20230615'', MarkDown = []\<rparr>"
  by code_simp

text \<open>
  C1, amended. Let the scanner output be parsed without a process error, and let its
  last line that contains \<open>infected:\<close> be \<open>path infected: name\<close>, where neither \<open>path\<close> nor
  \<open>name\<close> contains the marker and \<open>name\<close> trims to a non-empty string. If no earlier line
  with the marker has an empty name, and the look-up of the sentinel file succeeds,
  the parser returns a result with \<open>Infected = true\<close> and \<open>Result\<close> equal to \<open>name\<close>
  trimmed of surrounding white space.
\<close>

theorem C1_last_infected_line:
  assumes lines: "Split out newline = pre @ (path @ ''infected:'' @ name) # post"
    and pre: "\<forall>l\<in>set pre. Contains l ''infected:'' \<longrightarrow> extractVirusName l \<noteq> Inr []"
    and post: "\<forall>l\<in>set post. \<not> Contains l ''infected:''"
    and path: "\<not> Contains path ''infected:''"
    and name: "\<not> Contains name ''infected:''"
    and nonempty: "TrimSpace name \<noteq> []"
    and sentinel: "getUpdatedDate e = Inr u"
  shows "\<exists>r. ParseBitdefenderOutput e out None = Inr r \<and> Infected r
            \<and> Result r = TrimSpace name"
proof -
  let ?b0 = "zeroResults\<lparr>Infected := False\<rparr>"
  from parseLines_returns [OF pre] obtain b1 where b1: "parseLines ?b0 pre = Inr b1"
    by blast
  let ?b2 = "b1\<lparr>Result := TrimSpace name, Infected := True\<rparr>"
  from parseLine_infected [OF path name] nonempty
  have b2: "parseLine b1 (path @ ''infected:'' @ name) = Inr ?b2"
    by simp
  from parseLines_no_marker [OF post, of ?b2] obtain b3 where
    b3: "parseLines ?b2 post = Inr b3" and "Infected b3" and "Result b3 = TrimSpace name"
    by auto
  from b1 b2 b3 have "parseLines ?b0 (pre @ (path @ ''infected:'' @ name) # post) = Inr b3"
    by (simp add: parseLines_append)
  with lines sentinel \<open>Infected b3\<close> \<open>Result b3 = TrimSpace name\<close> show ?thesis
    by (simp add: ParseBitdefenderOutput_def)
qed

theorem C1_last_infected_line_witness:
  "Split (''x infected: A'' @ newline @
          ''/malware/EICAR  infected: EICAR-Test-File (not a virus)'' @ newline @ ''Results:'')
     newline
     = [''x infected: A''] @ (''/malware/EICAR  '' @ ''infected:'' @ '' EICAR-Test-File (not a virus)'')
         # [''Results:'']
   \<and> Contains ''x infected: A'' ''infected:''
   \<and> extractVirusName ''x infected: A'' = Inr ''A''
   \<and> \<not> Contains ''Results:'' ''infected:''
   \<and> \<not> Contains ''/malware/EICAR  '' ''infected:''
   \<and> \<not> Contains '' EICAR-Test-File (not a virus)'' ''infected:''
   \<and> TrimSpace '' EICAR-Test-File (not a virus)'' = ''EICAR-Test-File (not a virus)''
   \<and> getUpdatedDate \<lparr>BuildTime = ''20230615'', UPDATED = NotExist\<rparr> = Inr ''20230615''
   \<and> (\<exists>r. ParseBitdefenderOutput \<lparr>BuildTime = ''20230615'', UPDATED = NotExist\<rparr>
             (''x infected: A'' @ newline @
              ''/malware/EICAR  infected: EICAR-Test-File (not a virus)'' @ newline @ ''Results:'')
             None = Inr r
           \<and> Infected r \<and> Result r = ''EICAR-Test-File (not a virus)'')"
proof -
  have 1: "Split (''x infected: A'' @ newline @
          ''/malware/EICAR  infected: EICAR-Test-File (not a virus)'' @ newline @ ''Results:'')
     newline
     = [''x infected: A''] @ (''/malware/EICAR  '' @ ''infected:'' @ '' EICAR-Test-File (not a virus)'')
         # [''Results:'']"
    by code_simp
  have 2: "\<forall>l\<in>set [''x infected: A'']. Contains l ''infected:'' \<longrightarrow> extractVirusName l \<noteq> Inr []"
    by code_simp
  have 3: "\<forall>l\<in>set [''Results:'']. \<not> Contains l ''infected:''"
    by code_simp
  have 4: "\<not> Contains ''/malware/EICAR  '' ''infected:''"
    by code_simp
  have 5: "\<not> Contains '' EICAR-Test-File (not a virus)'' ''infected:''"
    by code_simp
  have 6: "TrimSpace '' EICAR-Test-File (not a virus)'' = ''EICAR-Test-File (not a virus)''"
    by code_simp
  then have ne: "TrimSpace '' EICAR-Test-File (not a virus)'' \<noteq> []"
    by simp
  have 7: "getUpdatedDate \<lparr>BuildTime = ''20230615'', UPDATED = NotExist\<rparr> = Inr ''20230615''"
    by code_simp
  have 8: "Contains ''x infected: A'' ''infected:''"
    by code_simp
  have 9: "extractVirusName ''x infected: A'' = Inr ''A''"
    by code_simp
  have 10: "\<not> Contains ''Results:'' ''infected:''"
    by code_simp
  from C1_last_infected_line [OF 1 2 3 4 5 ne 7] 1 4 5 6 7 8 9 10 show ?thesis
    by simp
qed

subsection \<open>C2: an infected line without a name\<close>

text \<open>
  C2, as the spec states it, fails on a line with two markers: white space alone
  follows the second one, but the name is taken behind the first, and the parser
  returns a result.
\<close>

theorem C2_counterexample:
  "''x infected: y infected:  '' \<in> set (Split ''x infected: y infected:  '' newline)
   \<and> ''x infected: y infected:  '' = ''x infected: y '' @ ''infected:'' @ ''  ''
   \<and> onlySpace ''  ''
   \<and> ParseBitdefenderOutput \<lparr>BuildTime = ''20230615'', UPDATED = NotExist\<rparr>
        ''x infected: y infected:  '' None =
      Inr \<lparr>Infected = True, Result = ''y'', Engine = [], Updated = ''20230615'', MarkDown = []\<rparr>"
  by code_simp

text \<open>
  C2, amended. For every scanner output parsed without a process error that has a line
  in which nothing but white space follows the first occurrence of \<open>infected:\<close>, the
  parser does not return: the process ends with \<open>os.Exit(2)\<close>.
\<close>

theorem C2_empty_name_exits:
  assumes line: "path @ ''infected:'' @ ws \<in> set (Split out newline)"
    and path: "\<not> Contains path ''infected:''"
    and ws: "onlySpace ws"
  shows "ParseBitdefenderOutput e out None = Inl (Exit 2)"
proof -
  let ?b0 = "zeroResults\<lparr>Infected := False\<rparr>"
  let ?line = "path @ ''infected:'' @ ws"
  from line obtain pre post where lines: "Split out newline = pre @ ?line # post"
    by (auto dest: split_list)
  have "parseLines ?b0 (pre @ ?line # post) = Inl (Exit 2)"
  proof (cases "parseLines ?b0 pre")
    case (Inl f)
    with parseLines_failure [OF Inl] show ?thesis by (simp add: parseLines_append)
  next
    case (Inr b1)
    from parseLine_infected [OF path onlySpace_no_marker [OF ws], of b1] TrimSpace_onlySpace [OF ws]
    have "parseLine b1 ?line = Inl (Exit 2)" by simp
    with Inr show ?thesis by (simp add: parseLines_append)
  qed
  with lines show ?thesis by (simp add: ParseBitdefenderOutput_def)
qed

theorem C2_empty_name_exits_witness:
  "''foo '' @ ''infected:'' @ ''   '' \<in> set (Split (''Plugins loaded.'' @ newline @ ''foo infected:   '') newline)
   \<and> \<not> Contains ''foo '' ''infected:''
   \<and> onlySpace ''   ''
   \<and> ParseBitdefenderOutput \<lparr>BuildTime = ''20230615'', UPDATED = NotExist\<rparr>
        (''Plugins loaded.'' @ newline @ ''foo infected:   '') None = Inl (Exit 2)"
proof -
  have 1: "''foo '' @ ''infected:'' @ ''   '' \<in> set (Split (''Plugins loaded.'' @ newline @ ''foo infected:   '') newline)"
    by code_simp
  have 2: "\<not> Contains ''foo '' ''infected:''"
    by code_simp
  have 3: "onlySpace ''   ''"
    by code_simp
  from C2_empty_name_exits [OF 1 2 3] 1 2 3 show ?thesis by blast
qed

subsection \<open>C3: the engine version\<close>

text \<open>
  C3, as the spec states it, fails on a banner line with two tokens that start with
  \<open>v\<close>: the loop over the tokens has no \<open>break\<close>, so the last of them gives \<open>Engine\<close>,
  not the first.
\<close>

theorem C3_counterexample:
  "Fields ''Scanner for Unices v7.90123 vendor-build'' =
     [''Scanner'', ''for'', ''Unices'', ''v7.90123'', ''vendor-build'']
   \<and> ParseBitdefenderOutput \<lparr>BuildTime = ''20230615'', UPDATED = NotExist\<rparr>
        ''Scanner for Unices v7.90123 vendor-build'' None =
      Inr \<lparr>Infected = False, Result = [], Engine = ''endor-build'', Updated = ''20230615'',
           MarkDown = []\<rparr>"
  by code_simp

text \<open>
  C3, amended. Let the scanner output be parsed without a process error, with no
  infected line of an empty name and with the sentinel look-up succeeding, and let
  \<open>line\<close> be its last line that contains \<open>Unices v\<close> and not \<open>infected:\<close>. Then the parser
  returns, \<open>line\<close> has a white-space-delimited token that starts with \<open>v\<close>, and \<open>Engine\<close>
  is the last such token of \<open>line\<close> with that leading \<open>v\<close> stripped. In particular a
  \<open>line\<close> that ends in \<open>Unices v7.90123 Linux-amd64\<close> gives \<open>7.90123\<close>.
\<close>

theorem C3_engine_last_v_token:
  assumes lines: "Split out newline = pre @ line # post"
    and banner: "Contains line ''Unices v''"
    and nomark: "\<not> Contains line ''infected:''"
    and post: "\<forall>l\<in>set post. Contains l ''Unices v'' \<longrightarrow> Contains l ''infected:''"
    and noexit: "\<forall>l\<in>set (Split out newline).
                   Contains l ''infected:'' \<longrightarrow> extractVirusName l \<noteq> Inr []"
    and sentinel: "getUpdatedDate e = Inr u"
  shows "\<exists>r. ParseBitdefenderOutput e out None = Inr r
           \<and> (\<exists>ws w ws'. Fields line = ws @ w # ws' \<and> HasPrefix w ''v''
                 \<and> (\<forall>x\<in>set ws'. \<not> HasPrefix x ''v'') \<and> Engine r = TrimPrefix w ''v'')
           \<and> (\<forall>p. line = p @ ''Unices v7.90123 Linux-amd64'' \<longrightarrow> Engine r = ''7.90123'')"
proof -
  let ?b0 = "zeroResults\<lparr>Infected := False\<rparr>"
  from noexit lines
  have npre: "\<forall>l\<in>set pre. Contains l ''infected:'' \<longrightarrow> extractVirusName l \<noteq> Inr []"
    and npost: "\<forall>l\<in>set post. Contains l ''infected:'' \<longrightarrow> extractVirusName l \<noteq> Inr []"
    by simp_all
  from parseLines_returns [OF npre] obtain b1 where b1: "parseLines ?b0 pre = Inr b1"
    by blast
  from parseLines_returns [OF npost] obtain b3 where
    b3: "parseLines (engineWords b1 (Fields line)) post = Inr b3"
    by blast
  from parseLines_engine_kept [OF post b3]
  have eng: "Engine b3 = Engine (engineWords b1 (Fields line))" .
  from b1 b3 parseLine_banner [OF banner nomark, of b1]
  have "parseLines ?b0 (pre @ line # post) = Inr b3"
    by (simp add: parseLines_append)
  with lines sentinel have ret: "ParseBitdefenderOutput e out None = Inr (b3\<lparr>Updated := u\<rparr>)"
    by (simp add: ParseBitdefenderOutput_def)
  from Fields_banner_last [OF banner] obtain ws w ws' where
    f: "Fields line = ws @ w # ws'" "HasPrefix w ''v''" "\<forall>x\<in>set ws'. \<not> HasPrefix x ''v''"
    by blast
  with eng have 1: "Engine (b3\<lparr>Updated := u\<rparr>) = TrimPrefix w ''v''"
    by (simp add: engineWords_last)
  have 2: "Engine (b3\<lparr>Updated := u\<rparr>) = ''7.90123''"
    if "line = p @ ''Unices v7.90123 Linux-amd64''" for p
  proof -
    have "HasPrefix ''v7.90123'' ''v''" and "\<forall>x\<in>set [''Linux-amd64'']. \<not> HasPrefix x ''v''"
      and "TrimPrefix ''v7.90123'' ''v'' = ''7.90123''"
      by (simp_all add: HasPrefix_def TrimPrefix_def)
    with engineWords_last [of "''v7.90123''" "[''Linux-amd64'']" b1 "Fields (p @ ''Unices'')"]
    have "Engine (engineWords b1 (Fields line)) = ''7.90123''"
      unfolding that Fields_example by simp
    with eng show ?thesis by simp
  qed
  from ret f 1 2 show ?thesis by blast
qed

theorem C3_engine_last_v_token_witness:
  "Split (''BitDefender Antivirus Scanner for Unices v7.90123 Linux-amd64'' @ newline @
          ''Plugins loaded.'') newline
     = [] @ ''BitDefender Antivirus Scanner for Unices v7.90123 Linux-amd64'' # [''Plugins loaded.'']
   \<and> Contains ''BitDefender Antivirus Scanner for Unices v7.90123 Linux-amd64'' ''Unices v''
   \<and> \<not> Contains ''BitDefender Antivirus Scanner for Unices v7.90123 Linux-amd64'' ''infected:''
   \<and> \<not> Contains ''Plugins loaded.'' ''Unices v''
   \<and> \<not> Contains ''Plugins loaded.'' ''infected:''
   \<and> getUpdatedDate \<lparr>BuildTime = ''20230615'', UPDATED = NotExist\<rparr> = Inr ''20230615''
   \<and> (\<exists>r. ParseBitdefenderOutput \<lparr>BuildTime = ''20230615'', UPDATED = NotExist\<rparr>
             (''BitDefender Antivirus Scanner for Unices v7.90123 Linux-amd64'' @ newline @
              ''Plugins loaded.'') None = Inr r
          \<and> Engine r = ''7.90123'')"
proof -
  have 1: "Split (''BitDefender Antivirus Scanner for Unices v7.90123 Linux-amd64'' @ newline @
          ''Plugins loaded.'') newline
     = [] @ ''BitDefender Antivirus Scanner for Unices v7.90123 Linux-amd64'' # [''Plugins loaded.'']"
    by code_simp
  have 2: "Contains ''BitDefender Antivirus Scanner for Unices v7.90123 Linux-amd64'' ''Unices v''"
    by code_simp
  have 3: "\<not> Contains ''BitDefender Antivirus Scanner for Unices v7.90123 Linux-amd64'' ''infected:''"
    by code_simp
  have 4: "\<forall>l\<in>set [''Plugins loaded.'']. Contains l ''Unices v'' \<longrightarrow> Contains l ''infected:''"
    by code_simp
  have 5: "\<forall>l\<in>set (Split (''BitDefender Antivirus Scanner for Unices v7.90123 Linux-amd64'' @ newline @
          ''Plugins loaded.'') newline).
         Contains l ''infected:'' \<longrightarrow> extractVirusName l \<noteq> Inr []"
    by code_simp
  have 6: "getUpdatedDate \<lparr>BuildTime = ''20230615'', UPDATED = NotExist\<rparr> = Inr ''20230615''"
    by code_simp
  have 7: "''BitDefender Antivirus Scanner for Unices v7.90123 Linux-amd64'' =
           ''BitDefender Antivirus Scanner for '' @ ''Unices v7.90123 Linux-amd64''"
    by simp
  from C3_engine_last_v_token [OF 1 2 3 4 5 6] 7
  have "\<exists>r. ParseBitdefenderOutput \<lparr>BuildTime = ''20230615'', UPDATED = NotExist\<rparr>
             (''BitDefender Antivirus Scanner for Unices v7.90123 Linux-amd64'' @ newline @
              ''Plugins loaded.'') None = Inr r
          \<and> Engine r = ''7.90123''"
    by blast
  moreover have "\<not> Contains ''Plugins loaded.'' ''Unices v''"
    and "\<not> Contains ''Plugins loaded.'' ''infected:''"
    by code_simp+
  ultimately show ?thesis using 1 2 3 6 by blast
qed

subsection \<open>C4: engine version and signature date populated\<close>




subsection \<open>C5: infected and signature name\<close>

text \<open>
  C5. Every result the parser returns satisfies: \<open>Infected\<close> implies that \<open>Result\<close> is
  not empty, and \<open>Infected = false\<close> implies that \<open>Result\<close> is the empty string.
\<close>

theorem C5_infected_iff_result:
  assumes "ParseBitdefenderOutput e out err = Inr r"
  shows "(Infected r \<longrightarrow> Result r \<noteq> []) \<and> (\<not> Infected r \<longrightarrow> Result r = [])"
proof (cases err)
  case (Some msg)
  with assms have "r = zeroResults" by (simp add: ParseBitdefenderOutput_def)
  then show ?thesis by (simp add: zeroResults_def)
next
  case None
  with assms obtain b u where
    b: "parseLines (zeroResults\<lparr>Infected := False\<rparr>) (Split out newline) = Inr b"
    and r: "r = b\<lparr>Updated := u\<rparr>"
    by (auto simp: ParseBitdefenderOutput_def split: sum.splits)
  have "resultInv (zeroResults\<lparr>Infected := False\<rparr>)"
    by (simp add: resultInv_def zeroResults_def)
  with parseLines_inv [OF b] have "resultInv b" .
  with r show ?thesis by (simp add: resultInv_def)
qed

theorem C5_infected_iff_result_witness:
  "ParseBitdefenderOutput \<lparr>BuildTime = ''20230615'', UPDATED = NotExist\<rparr>
     (''/malware/EICAR  infected: EICAR-Test-File (not a virus)'' @ newline) None =
   Inr \<lparr>Infected = True, Result = ''EICAR-Test-File (not a virus)'', Engine = [],
        Updated = ''20230615'', MarkDown = []\<rparr>
   \<and> Infected \<lparr>Infected = True, Result = ''EICAR-Test-File (not a virus)'', Engine = [],
        Updated = ''20230615'', MarkDown = []\<rparr>
   \<and> Result \<lparr>Infected = True, Result = ''EICAR-Test-File (not a virus)'', Engine = [],
        Updated = ''20230615'', MarkDown = []\<rparr> \<noteq> []"
proof -
  have h: "ParseBitdefenderOutput \<lparr>BuildTime = ''20230615'', UPDATED = NotExist\<rparr>
     (''/malware/EICAR  infected: EICAR-Test-File (not a virus)'' @ newline) None =
   Inr \<lparr>Infected = True, Result = ''EICAR-Test-File (not a virus)'', Engine = [],
        Updated = ''20230615'', MarkDown = []\<rparr>"
    by code_simp
  from C5_infected_iff_result [OF h] h show ?thesis by simp
qed

subsection \<open>C6: outputs without the marker\<close>

text \<open>
  C6, as the spec states it, fails when the sentinel file is there but cannot be read:
  the parser runs the look-up last, \<open>assert\<close> calls \<open>log.Fatal\<close> on the error of
  \<open>ReadFile\<close>, and the process ends without a result.
\<close>

theorem C6_counterexample:
  "\<not> Contains (''Plugins loaded.'' @ newline @ ''Infected files: 0'') ''infected:''
   \<and> ParseBitdefenderOutput
        \<lparr>BuildTime = ''20230615'',
         UPDATED = ReadError ''open /opt/malice/UPDATED: permission denied'' []\<rparr>
        (''Plugins loaded.'' @ newline @ ''Infected files: 0'') None = Inl (Exit 1)"
  by code_simp

text \<open>
  C6, amended. For every scanner output with no occurrence of \<open>infected:\<close>, the look-up
  of the sentinel file succeeding (the file does not exist, or it is read), the parser
  returns a result with \<open>Infected = false\<close> and the empty \<open>Result\<close>.
\<close>

theorem C6_no_marker_not_infected:
  assumes "\<not> Contains out ''infected:''" and "getUpdatedDate e = Inr u"
  shows "\<exists>r. ParseBitdefenderOutput e out err = Inr r \<and> \<not> Infected r \<and> Result r = []"
proof (cases err)
  case (Some msg)
  then show ?thesis by (simp add: ParseBitdefenderOutput_def zeroResults_def)
next
  case None
  from assms(1) have "\<forall>l\<in>set (Split out newline). \<not> Contains l ''infected:''"
    using Contains_line by blast
  from parseLines_no_marker [OF this, of "zeroResults\<lparr>Infected := False\<rparr>"]
  obtain b where "parseLines (zeroResults\<lparr>Infected := False\<rparr>) (Split out newline) = Inr b"
    and "\<not> Infected b" and "Result b = []"
    by (auto simp: zeroResults_def)
  with None assms(2) show ?thesis by (simp add: ParseBitdefenderOutput_def)
qed

theorem C6_no_marker_not_infected_witness:
  "\<not> Contains (''Plugins loaded.'' @ newline @ ''Infected files: 0'') ''infected:''
   \<and> getUpdatedDate \<lparr>BuildTime = ''20230615'', UPDATED = NotExist\<rparr> = Inr ''20230615''
   \<and> (\<exists>r. ParseBitdefenderOutput \<lparr>BuildTime = ''20230615'', UPDATED = NotExist\<rparr>
             (''Plugins loaded.'' @ newline @ ''Infected files: 0'') None = Inr r
           \<and> \<not> Infected r \<and> Result r = [])"
proof -
  have 1: "\<not> Contains (''Plugins loaded.'' @ newline @ ''Infected files: 0'') ''infected:''"
    by code_simp
  have 2: "getUpdatedDate \<lparr>BuildTime = ''20230615'', UPDATED = NotExist\<rparr> = Inr ''20230615''"
    by code_simp
  from C6_no_marker_not_infected [OF 1 2, of None] 1 2 show ?thesis by blast
qed

subsection \<open>C7: the sentinel look-up\<close>

text \<open>
  C7. The lookup that fills \<open>Updated\<close> returns \<open>BuildTime\<close> when the sentinel file does
  not exist, and the bytes of the file as they are when it does: the contents
  \<open>20230615\<close> give exactly \<open>20230615\<close>, and white space around the contents is kept.
\<close>

theorem C7_sentinel_lookup:
  "getUpdatedDate \<lparr>BuildTime = bt, UPDATED = NotExist\<rparr> = Inr bt
   \<and> getUpdatedDate \<lparr>BuildTime = bt, UPDATED = Contents c\<rparr> = Inr c
   \<and> getUpdatedDate \<lparr>BuildTime = bt, UPDATED = Contents ''20230615''\<rparr> = Inr ''20230615''
   \<and> getUpdatedDate \<lparr>BuildTime = bt, UPDATED = Contents ('' 2023-06-15 '' @ newline)\<rparr>
       = Inr ('' 2023-06-15 '' @ newline)"
  by (simp add: getUpdatedDate_def)

subsection \<open>C8: the temporary file of an upload\<close>

text \<open>
  C8 does not hold of the code. An upload whose scan makes the parser exit, or whose
  scan times out, ends the process through \<open>os.Exit\<close>, and the deferred \<open>os.Remove\<close> does
  not run: the temporary file is still there. It is removed when the handler returns.
\<close>

theorem C8_tempfile_left_behind:
  "webAvScan \<lparr>BuildTime = ''20230615'', UPDATED = NotExist\<rparr>
     \<lparr>formFileErr = None, tempFile = Inr ''/malware/web_012345'', readAllErr = None,
      writeErr = None, closeErr = None,
      runCommand = (''foo infected:   '', Some ''exit status 1''), encodeErr = None\<rparr> {}
     = (Inl (Exit 2), {''/malware/web_012345''})
   \<and> webAvScan \<lparr>BuildTime = ''20230615'', UPDATED = NotExist\<rparr>
     \<lparr>formFileErr = None, tempFile = Inr ''/malware/web_012345'', readAllErr = None,
      writeErr = None, closeErr = None,
      runCommand = ([], Some ''signal: killed''), encodeErr = None\<rparr> {}
     = (Inl (Exit 1), {''/malware/web_012345''})
   \<and> webAvScan \<lparr>BuildTime = ''20230615'', UPDATED = NotExist\<rparr>
     \<lparr>formFileErr = None, tempFile = Inr ''/malware/web_012345'', readAllErr = None,
      writeErr = None, closeErr = None,
      runCommand = (''/malware/web_012345  infected: EICAR-Test-File (not a virus)'',
                    Some ''exit status 1''), encodeErr = None\<rparr> {}
     = (Inr \<lparr>Infected = True, Result = ''EICAR-Test-File (not a virus)'', Engine = [],
             Updated = ''20230615'', MarkDown = []\<rparr>, {})"
proof -
  have 1: "AvScan \<lparr>BuildTime = ''20230615'', UPDATED = NotExist\<rparr>
             (''foo infected:   '', Some ''exit status 1'') = Inl (Exit 2)"
    by code_simp
  have 2: "AvScan \<lparr>BuildTime = ''20230615'', UPDATED = NotExist\<rparr>
             ([], Some ''signal: killed'') = Inl (Exit 1)"
    by code_simp
  have 3: "AvScan \<lparr>BuildTime = ''20230615'', UPDATED = NotExist\<rparr>
             (''/malware/web_012345  infected: EICAR-Test-File (not a virus)'', Some ''exit status 1'')
           = Inr \<lparr>Infected = True, Result = ''EICAR-Test-File (not a virus)'', Engine = [],
             Updated = ''20230615'', MarkDown = []\<rparr>"
    by code_simp
  show ?thesis
    by (simp add: webAvScan_def assert_def afterFailure_def afterReturn_def 1 2 3)
qed

subsection \<open>C9: the update\<close>

text \<open>
  C9. When \<open>bdscan --update\<close> ran without error, \<open>updateAV\<close> overwrites the sentinel file
  with the local date in the form YYYYMMDD: for a year up to 9999 the file holds the
  eight decimal digits of year, month and day, as \<open>YYYYMMDD\<close> lists them (15 June 2023
  gives \<open>20230615\<close>), and the sentinel look-up then returns them. When the write fails,
  its error is what \<open>updateAV\<close> returns to the caller.
\<close>

theorem C9_update_writes_date:
  "updateAV (output, None) now Written = Inr (None, Contents (Format20060102 now))
   \<and> getUpdatedDate \<lparr>BuildTime = bt, UPDATED = Contents (Format20060102 now)\<rparr>
       = Inr (Format20060102 now)
   \<and> updateAV (output, None) now (WriteFailed msg left) = Inr (Some msg, left)
   \<and> Format20060102 \<lparr>year = 2023, month = 6, day = 15\<rparr> = ''20230615''
   \<and> (year now < 10000 \<and> month now \<le> 12 \<and> day now \<le> 31 \<longrightarrow> length (Format20060102 now) = 8)
   \<and> (year now < 10000 \<and> month now < 100 \<and> day now < 100 \<longrightarrow>
        Format20060102 now = YYYYMMDD now
        \<and> updateAV (output, None) now Written = Inr (None, Contents (YYYYMMDD now)))"
proof -
  have "Format20060102 \<lparr>year = 2023, month = 6, day = 15\<rparr> = ''20230615''"
    by code_simp
  moreover have "year now < 10000 \<and> month now \<le> 12 \<and> day now \<le> 31 \<longrightarrow> length (Format20060102 now) = 8"
    using Format20060102_length [of now] by blast
  moreover have "year now < 10000 \<and> month now < 100 \<and> day now < 100 \<longrightarrow>
        Format20060102 now = YYYYMMDD now"
    using Format20060102_YYYYMMDD [of now] by blast
  ultimately show ?thesis
    by (simp add: updateAV_def assert_def WriteFile_def getUpdatedDate_def)
qed

theorem C9_update_writes_date_witness:
  "year \<lparr>year = 2026, month = 11, day = 1\<rparr> < 10000
   \<and> month \<lparr>year = 2026, month = 11, day = 1\<rparr> \<le> 12
   \<and> day \<lparr>year = 2026, month = 11, day = 1\<rparr> \<le> 31
   \<and> month \<lparr>year = 2026, month = 11, day = 1\<rparr> < 100
   \<and> day \<lparr>year = 2026, month = 11, day = 1\<rparr> < 100
   \<and> length (Format20060102 \<lparr>year = 2026, month = 11, day = 1\<rparr>) = 8
   \<and> YYYYMMDD \<lparr>year = 2026, month = 11, day = 1\<rparr> = ''20261101''
   \<and> Format20060102 \<lparr>year = 2026, month = 11, day = 1\<rparr>
       = YYYYMMDD \<lparr>year = 2026, month = 11, day = 1\<rparr>
   \<and> updateAV (''Update succeeded.'', None) \<lparr>year = 2026, month = 11, day = 1\<rparr> Written
       = Inr (None, Contents ''20261101'')"
proof -
  have "YYYYMMDD \<lparr>year = 2026, month = 11, day = 1\<rparr> = ''20261101''"
    by code_simp
  with C9_update_writes_date [of "''Update succeeded.''" "\<lparr>year = 2026, month = 11, day = 1\<rparr>"]
  show ?thesis by simp
qed

subsection \<open>C10: lines with several markers\<close>

text \<open>
  C10. For a line with two or more occurrences of \<open>infected:\<close>, the name extracted is
  the trimmed text between the first occurrence and the second, not all that follows
  the first: \<open>a infected: b infected: c\<close> gives \<open>b\<close>. (\<open>p\<close> holds no marker, so the marker
  behind it is the first of the line; \<open>q\<close> holds none, so the next one is the second.)
\<close>

theorem C10_name_between_first_two_markers:
  "(\<not> Contains p ''infected:'' \<and> \<not> Contains q ''infected:'' \<longrightarrow>
      extractVirusName (p @ ''infected:'' @ q @ ''infected:'' @ r) = Inr (TrimSpace q))
   \<and> extractVirusName ''a infected: b infected: c'' = Inr ''b''"
proof
  show "\<not> Contains p ''infected:'' \<and> \<not> Contains q ''infected:'' \<longrightarrow>
      extractVirusName (p @ ''infected:'' @ q @ ''infected:'' @ r) = Inr (TrimSpace q)"
    using extractVirusName_between [of p q r] by blast
  show "extractVirusName ''a infected: b infected: c'' = Inr ''b''"
    by code_simp
qed

theorem C10_name_between_first_two_markers_witness:
  "\<not> Contains ''a '' ''infected:'' \<and> \<not> Contains '' b '' ''infected:''
   \<and> extractVirusName (''a '' @ ''infected:'' @ '' b '' @ ''infected:'' @ '' c'') = Inr ''b''"
proof -
  have 1: "\<not> Contains ''a '' ''infected:''" by code_simp
  have 2: "\<not> Contains '' b '' ''infected:''" by code_simp
  have 3: "TrimSpace '' b '' = ''b''" by code_simp
  from C10_name_between_first_two_markers [of "''a ''" "'' b ''" "'' c''"] 1 2 3
  show ?thesis by simp
qed

end
